theory Spec2Isabelle
  imports Complex_Main "HOL-Library.Multiset"
begin

section \<open>Configuration\<close>

text \<open>
  The \<open>CONFIG\<close> object of \<open>device-rotation-test.js\<close>. Durations are milliseconds.
\<close>

definition INTERVAL :: nat where "INTERVAL = 60000"
definition SDK_WAIT :: nat where "SDK_WAIT = 20000"
definition PAGE_LOAD_TIMEOUT :: nat where "PAGE_LOAD_TIMEOUT = 60000"
definition SCREENSHOT_PREFIX :: string where "SCREENSHOT_PREFIX = ''screenshot''"
definition MAX_ITERATIONS :: nat where "MAX_ITERATIONS = 1000"
definition SCREENSHOT_DIR :: string where "SCREENSHOT_DIR = ''screenshots''"

section \<open>Strings\<close>

text \<open>
  JavaScript strings are modelled as \<open>string\<close> (lists of 8-bit characters), which is
  exact for ASCII text. \<open>toLowerCase\<close> is modelled on that range: the letters
  \<open>A\<close> to \<open>Z\<close> move to \<open>a\<close> to \<open>z\<close>, every other character stays.
\<close>

definition char_code :: "char \<Rightarrow> nat" where
  "char_code c = of_char c"

definition is_ascii :: "char \<Rightarrow> bool" where
  "is_ascii c = (char_code c < 128)"

definition is_upper :: "char \<Rightarrow> bool" where
  "is_upper c = (65 \<le> char_code c \<and> char_code c \<le> 90)"

definition is_lower_or_digit :: "char \<Rightarrow> bool" where
  \<comment> \<open>the character class \<open>[a-z0-9]\<close>\<close>
  "is_lower_or_digit c =
     ((97 \<le> char_code c \<and> char_code c \<le> 122) \<or> (48 \<le> char_code c \<and> char_code c \<le> 57))"

definition is_alnum :: "char \<Rightarrow> bool" where
  "is_alnum c = (is_upper c \<or> is_lower_or_digit c)"

definition lower_char :: "char \<Rightarrow> char" where
  "lower_char c = (if is_upper c then char_of (char_code c + 32) else c)"

definition toLowerCase :: "string \<Rightarrow> string" where
  "toLowerCase s = map lower_char s"

definition replace_class :: "(char \<Rightarrow> bool) \<Rightarrow> char \<Rightarrow> string \<Rightarrow> string" where
  \<comment> \<open>\<open>s.replace(/[class]/g, r)\<close> with a one-character class and a one-character
     replacement: every single match is replaced on its own\<close>
  "replace_class P r s = map (\<lambda>c. if P c then r else c) s"

definition startsWith :: "string \<Rightarrow> string \<Rightarrow> bool" where
  "startsWith s p = (take (length p) s = p)"

definition path_join :: "string \<Rightarrow> string \<Rightarrow> string" where
  \<comment> \<open>\<open>path.join\<close> of a directory name and a file name, POSIX separator\<close>
  "path_join d f = d @ ''/'' @ f"

fun digits_of :: "nat \<Rightarrow> string" where
  "digits_of n =
     (if n < 10 then [char_of (48 + n)]
      else digits_of (n div 10) @ [char_of (48 + n mod 10)])"

declare digits_of.simps [simp del]

section \<open>Screenshot file names\<close>

definition safeName :: "string \<Rightarrow> string" where
  \<comment> \<open>\<open>this.profileName.toLowerCase().replace(/[^a-z0-9]/g, '-')\<close>\<close>
  "safeName profileName =
     replace_class (\<lambda>c. \<not> is_lower_or_digit c) (CHR ''-'') (toLowerCase profileName)"

definition safeTimestamp :: "string \<Rightarrow> string" where
  \<comment> \<open>\<open>new Date().toISOString().replace(/[:.]/g, '-')\<close>, the clock reading is a parameter\<close>
  "safeTimestamp stamp = replace_class (\<lambda>c. c = CHR '':'' \<or> c = CHR ''.'') (CHR ''-'') stamp"

definition screenshotPath_of :: "string \<Rightarrow> string \<Rightarrow> string" where
  "screenshotPath_of stamp profileName =
     path_join SCREENSHOT_DIR
       (SCREENSHOT_PREFIX @ ''-'' @ safeTimestamp stamp @ ''-'' @ safeName profileName @ ''.png'')"

definition errorScreenshotPath_of :: "string \<Rightarrow> string" where
  "errorScreenshotPath_of profileName =
     path_join SCREENSHOT_DIR
       (''error-'' @ SCREENSHOT_PREFIX @ ''-'' @ safeName profileName @ ''.png'')"

text \<open>
  The slug as the specification words it: lowercased, every run of consecutive
  non-alphanumeric characters collapsed to one separator. The flag says whether the
  previous character already produced the separator of the current run.
\<close>

fun collapse_runs :: "bool \<Rightarrow> string \<Rightarrow> string" where
  "collapse_runs inRun [] = []"
| "collapse_runs inRun (c # cs) =
     (if is_lower_or_digit c then c # collapse_runs False cs
      else if inRun then collapse_runs True cs
      else CHR ''-'' # collapse_runs True cs)"

definition slugify_spec :: "string \<Rightarrow> string" where
  "slugify_spec profileName = collapse_runs False (toLowerCase profileName)"

fun no_adjacent_separators :: "string \<Rightarrow> bool" where
  "no_adjacent_separators (x # y # zs) =
     (\<not> (x = CHR ''-'' \<and> y = CHR ''-'') \<and> no_adjacent_separators (y # zs))"
| "no_adjacent_separators _ = True"

definition ascii_only :: "string \<Rightarrow> bool" where
  "ascii_only s = list_all is_ascii s"

section \<open>Argument validation\<close>

text \<open>
  \<open>process.exit(code)\<close> ends the process, so \<open>validateArguments\<close> returns either the
  exit code or the URL. \<open>process.argv[2]\<close> is \<open>undefined\<close> when the list is too short;
  \<open>!url\<close> holds for \<open>undefined\<close> and for the empty string.
\<close>

definition argv_at :: "string list \<Rightarrow> nat \<Rightarrow> string option" where
  "argv_at argv i = (if i < length argv then Some (argv ! i) else None)"

definition validateArguments :: "string list \<Rightarrow> nat + string" where
  "validateArguments argv =
     (case argv_at argv 2 of
        None \<Rightarrow> Inl 1
      | Some url \<Rightarrow>
          if url = [] then Inl 1
          else if \<not> startsWith url ''http://'' \<and> \<not> startsWith url ''https://'' then Inl 1
          else Inr url)"

section \<open>Device profiles\<close>

text \<open>
  Three fields of a profile are written in the source: \<open>name\<close>, \<open>category\<close> and, for
  the desktop profile, the whole configuration. The others are spread from the
  \<open>devices\<close> table of the browser automation library, which is a parameter here; a
  name the table does not know spreads nothing, and the profile then has no viewport.
\<close>

datatype category = mobile | tablet | desktop

record descriptor =
  d_viewport :: "nat \<times> nat"
  d_userAgent :: string
  d_deviceScaleFactor :: rat
  d_isMobile :: bool
  d_hasTouch :: bool

record profile =
  name :: string
  category :: category
  viewport :: "(nat \<times> nat) option"
  userAgent :: "string option"
  deviceScaleFactor :: "rat option"
  isMobile :: "bool option"
  hasTouch :: "bool option"

definition spread_device :: "descriptor option \<Rightarrow> string \<Rightarrow> category \<Rightarrow> profile" where
  "spread_device d n c =
     \<lparr> name = n, category = c,
       viewport = map_option d_viewport d,
       userAgent = map_option d_userAgent d,
       deviceScaleFactor = map_option d_deviceScaleFactor d,
       isMobile = map_option d_isMobile d,
       hasTouch = map_option d_hasTouch d \<rparr>"

definition desktop_chrome :: profile where
  "desktop_chrome =
     \<lparr> name = ''Desktop Chrome'', category = desktop,
       viewport = Some (1366, 768),
       userAgent = Some (''Mozilla/5.0 (Windows NT 10.0; Win64; x64) AppleWebKit/537.36 ''
                         @ ''(KHTML, like Gecko) Chrome/120.0.0.0 Safari/537.36''),
       deviceScaleFactor = Some 1,
       isMobile = Some False,
       hasTouch = Some False \<rparr>"

definition DEVICE_PROFILES :: "(string \<Rightarrow> descriptor option) \<Rightarrow> profile list" where
  "DEVICE_PROFILES devices =
     [ spread_device (devices ''iPhone 15 Pro'') ''iPhone 15 Pro'' mobile,
       spread_device (devices ''Pixel 6'') ''Pixel 6'' mobile,
       spread_device (devices ''iPad (gen 7)'') ''iPad (gen 7)'' tablet,
       desktop_chrome,
       spread_device (devices ''Galaxy S23'') ''Galaxy S23'' mobile ]"

definition profileIndex :: "(string \<Rightarrow> descriptor option) \<Rightarrow> nat \<Rightarrow> nat" where
  \<comment> \<open>\<open>iteration % DEVICE_PROFILES.length\<close>\<close>
  "profileIndex devices iteration = iteration mod length (DEVICE_PROFILES devices)"

definition selectProfile :: "(string \<Rightarrow> descriptor option) \<Rightarrow> nat \<Rightarrow> profile" where
  \<comment> \<open>\<open>DEVICE_PROFILES[profileIndex]\<close>; the index is always in range\<close>
  "selectProfile devices iteration = DEVICE_PROFILES devices ! profileIndex devices iteration"

section \<open>The world of one visit\<close>

text \<open>
  Everything outside the program is a parameter: the outcome of each call into the
  file system and the browser, the clock, and the events the event loop delivers
  while the session is suspended at an \<open>await\<close>. A rejected promise carries an error
  with a name and a message.
\<close>

datatype js_error = JsError (err_name: string) (err_message: string)

record response =
  rstatus :: nat
  rstatusText :: string

datatype stage =
    AtAccess | AtMkdir | AtLaunch | AtNewContext | AtNewPage | AtGoto | AtSettle
  | AtScreenshot | AtTitle | AtErrorScreenshot | AtCleanup

datatype event =
    Response nat            \<comment> \<open>the page received a response with this status\<close>
  | ConsoleMsg string string \<comment> \<open>type and text of a console message\<close>
  | PageError string
  | Signal                  \<comment> \<open>SIGINT or SIGTERM\<close>

datatype action =
    FsAccess string | FsMkdir string | Launch | NewContext | NewPage | Goto string
  | WaitForTimeout nat | Screenshot string bool | Title
  | ClosePage | CloseContext | CloseBrowser

record world =
  access_r :: "js_error option"
  mkdir_r :: "js_error option"
  launch_r :: "js_error option"
  newContext_r :: "js_error option"
  newPage_r :: "js_error option"
  goto_r :: "js_error + response option"
  waitForTimeout_r :: "js_error option"
  screenshot_r :: "js_error option"
  title_r :: "js_error + string"
  errorScreenshot_r :: "js_error option"
  isClosed_r :: bool
  now_r :: string
  events :: "stage \<Rightarrow> event list"

section \<open>The single-visit session\<close>

text \<open>
  The fields of a \<open>DeviceTester\<close> (a resource field is \<open>True\<close> when it is not
  \<open>null\<close>), whether the page observers are attached, the process-wide variable
  \<open>isShuttingDown\<close>, and the log of the calls made into the file system and the browser.
  A session is followed to its end also after a signal: the exit that the signal
  handler schedules belongs to the process, which is modelled further down.
\<close>

datatype status = StatusUnknown | StatusSuccess | StatusError

record session =
  browser :: bool
  browserContext :: bool
  page :: bool
  cleanupCalled :: bool
  status :: status
  error :: "string option"
  screenshotTaken :: bool
  httpStatus :: nat
  screenshotPath :: "string option"
  observed :: bool
  isShuttingDown :: bool
  trace :: "action list"

definition new_DeviceTester :: session where
  "new_DeviceTester =
     \<lparr> browser = False, browserContext = False, page = False, cleanupCalled = False,
       status = StatusUnknown, error = None, screenshotTaken = False, httpStatus = 0,
       screenshotPath = None, observed = False, isShuttingDown = False, trace = [] \<rparr>"

definition call :: "action \<Rightarrow> session \<Rightarrow> session" where
  "call a s = s\<lparr> trace := trace s @ [a] \<rparr>"

definition cleanup_start :: "world \<Rightarrow> session \<Rightarrow> session" where
  \<comment> \<open>\<open>cleanup\<close> up to its \<open>await\<close>: the guard, and the three close calls\<close>
  "cleanup_start w s =
     (if cleanupCalled s then s
      else
        let s1 = s\<lparr> cleanupCalled := True \<rparr>;
            s2 = (if page s1 \<and> \<not> isClosed_r w then call ClosePage s1 else s1);
            s3 = (if browserContext s2 then call CloseContext s2 else s2)
        in if browser s3 then call CloseBrowser s3 else s3)"

definition gracefulShutdown :: "world \<Rightarrow> session \<Rightarrow> session" where
  \<comment> \<open>the signal handler while \<open>currentTest\<close> is this session\<close>
  "gracefulShutdown w s = cleanup_start w (s\<lparr> isShuttingDown := True \<rparr>)"

fun handle :: "world \<Rightarrow> event \<Rightarrow> session \<Rightarrow> session" where
  "handle w (Response st) s =
     (if observed s \<and> 400 \<le> st then s\<lparr> httpStatus := st \<rparr> else s)"
| "handle w (ConsoleMsg ty txt) s = s"
| "handle w (PageError m) s = s"
| "handle w Signal s = gracefulShutdown w s"

definition await :: "world \<Rightarrow> stage \<Rightarrow> session \<Rightarrow> session" where
  \<comment> \<open>the handlers that run while the session is suspended at this stage\<close>
  "await w st s = foldl (\<lambda>s e. handle w e s) s (events w st)"

definition cleanup :: "world \<Rightarrow> session \<Rightarrow> session" where
  "cleanup w s = (if cleanupCalled s then s else await w AtCleanup (cleanup_start w s))"

definition null_deref :: "string \<Rightarrow> js_error" where
  \<comment> \<open>reading a property of \<open>null\<close> or \<open>undefined\<close>\<close>
  "null_deref prop =
     JsError ''TypeError'' (''Cannot read properties of null (reading '' @ prop @ '')'')"

type_synonym step = "session \<Rightarrow> js_error option \<times> session"

fun seq :: "step list \<Rightarrow> step" where
  "seq [] s = (None, s)"
| "seq (f # fs) s = (case f s of (Some e, s') \<Rightarrow> (Some e, s') | (None, s') \<Rightarrow> seq fs s')"

definition logHeader :: "profile \<Rightarrow> step" where
  \<comment> \<open>the four \<open>console.log\<close> lines; the third reads \<open>this.profile.viewport.width\<close>\<close>
  "logHeader p s = (case viewport p of None \<Rightarrow> (Some (null_deref ''width''), s) | Some v \<Rightarrow> (None, s))"

definition ensureScreenshotDir :: "world \<Rightarrow> step" where
  "ensureScreenshotDir w s =
     (let s1 = await w AtAccess (call (FsAccess SCREENSHOT_DIR) s) in
      case access_r w of
        None \<Rightarrow> (None, s1)
      | Some e \<Rightarrow>
          let s2 = await w AtMkdir (call (FsMkdir SCREENSHOT_DIR) s1)
          in (mkdir_r w, s2))"

definition launch :: "world \<Rightarrow> step" where
  "launch w s =
     (let s1 = await w AtLaunch (call Launch s) in
      case launch_r w of Some e \<Rightarrow> (Some e, s1) | None \<Rightarrow> (None, s1\<lparr> browser := True \<rparr>))"

definition newContext :: "world \<Rightarrow> step" where
  "newContext w s =
     (if \<not> browser s then (Some (null_deref ''newContext''), s)
      else
        let s1 = await w AtNewContext (call NewContext s) in
        case newContext_r w of Some e \<Rightarrow> (Some e, s1) | None \<Rightarrow> (None, s1\<lparr> browserContext := True \<rparr>))"

definition newPage :: "world \<Rightarrow> step" where
  "newPage w s =
     (if \<not> browserContext s then (Some (null_deref ''newPage''), s)
      else
        let s1 = await w AtNewPage (call NewPage s) in
        case newPage_r w of Some e \<Rightarrow> (Some e, s1) | None \<Rightarrow> (None, s1\<lparr> page := True \<rparr>))"

definition setupEventHandlers :: step where
  "setupEventHandlers s =
     (if \<not> page s then (Some (null_deref ''on''), s) else (None, s\<lparr> observed := True \<rparr>))"

definition http_error :: "response \<Rightarrow> js_error" where
  \<comment> \<open>\<open>new Error(`HTTP ${response.status()} - ${response.statusText()}`)\<close>\<close>
  "http_error r = JsError ''Error'' (''HTTP '' @ digits_of (rstatus r) @ '' - '' @ rstatusText r)"

definition loadPage_try :: "world \<Rightarrow> string \<Rightarrow> step" where
  \<comment> \<open>the \<open>try\<close> block of \<open>loadPage\<close>\<close>
  "loadPage_try w targetUrl s =
     (if \<not> page s then (Some (null_deref ''goto''), s)
      else
        let s1 = await w AtGoto (call (Goto targetUrl) s) in
        case goto_r w of
          Inl e \<Rightarrow> (Some e, s1)
        | Inr None \<Rightarrow> (None, s1)
        | Inr (Some r) \<Rightarrow>
            let s2 = s1\<lparr> httpStatus := rstatus r \<rparr>
            in if 400 \<le> rstatus r then (Some (http_error r), s2) else (None, s2))"

definition loadPage :: "world \<Rightarrow> string \<Rightarrow> step" where
  "loadPage w targetUrl s =
     (case loadPage_try w targetUrl s of
        (Some e, s') \<Rightarrow> if err_name e = ''TimeoutError'' then (None, s') else (Some e, s')
      | (None, s') \<Rightarrow> (None, s'))"

definition settle :: "world \<Rightarrow> step" where
  \<comment> \<open>\<open>await this.page.waitForTimeout(CONFIG.SDK_WAIT)\<close>\<close>
  "settle w s =
     (if \<not> page s then (Some (null_deref ''waitForTimeout''), s)
      else (waitForTimeout_r w, await w AtSettle (call (WaitForTimeout SDK_WAIT) s)))"

definition takeScreenshot :: "world \<Rightarrow> profile \<Rightarrow> step" where
  "takeScreenshot w p s =
     (let path = screenshotPath_of (now_r w) (name p) in
      if \<not> page s then (None, s)
      else
        let s1 = await w AtScreenshot (call (Screenshot path True) s) in
        case screenshot_r w of
          Some e \<Rightarrow> (None, s1)
        | None \<Rightarrow> (None, s1\<lparr> screenshotTaken := True, screenshotPath := Some path \<rparr>))"

definition collectPageInfo :: "world \<Rightarrow> step" where
  \<comment> \<open>the title, the URL or the caught error are only logged\<close>
  "collectPageInfo w s =
     (if \<not> page s then (None, s) else (None, await w AtTitle (call Title s)))"

definition takeErrorScreenshot :: "world \<Rightarrow> profile \<Rightarrow> session \<Rightarrow> session" where
  \<comment> \<open>the path or the caught error are only logged\<close>
  "takeErrorScreenshot w p s =
     (if \<not> page s then s
      else await w AtErrorScreenshot (call (Screenshot (errorScreenshotPath_of (name p)) False) s))"

definition test_try :: "world \<Rightarrow> profile \<Rightarrow> string \<Rightarrow> step" where
  \<comment> \<open>the \<open>try\<close> block of \<open>test\<close> up to the assignment of the status\<close>
  "test_try w p targetUrl =
     seq [ logHeader p, ensureScreenshotDir w, launch w, newContext w, newPage w,
           setupEventHandlers, loadPage w targetUrl, settle w, takeScreenshot w p,
           collectPageInfo w ]"

definition test :: "world \<Rightarrow> profile \<Rightarrow> nat \<Rightarrow> string \<Rightarrow> session \<Rightarrow> bool \<times> session" where
  "test w p iteration targetUrl s =
     (case test_try w p targetUrl s of
        (None, s1) \<Rightarrow> (True, cleanup w (s1\<lparr> status := StatusSuccess \<rparr>))
      | (Some e, s1) \<Rightarrow>
          (False,
           cleanup w
             (takeErrorScreenshot w p (s1\<lparr> status := StatusError, error := Some (err_message e) \<rparr>))))"

section \<open>The interruptible wait\<close>

text \<open>
  \<open>sleep(ms)\<close> arms a timeout of \<open>ms\<close> and an interval timer of 1000 ms whose callback
  reads \<open>isShuttingDown\<close>. Time is counted in milliseconds from the call and timers fire
  when they are due; \<open>flag t\<close> is the value of \<open>isShuttingDown\<close> at time \<open>t\<close>. The
  recursion goes from one tick of the interval timer to the next. The result is the
  time at which the promise resolves, and whether the interval timer is still armed
  then: only the callback that sees the flag clears it.
\<close>

definition POLL :: nat where "POLL = 1000"

function sleep_from :: "nat \<Rightarrow> (nat \<Rightarrow> bool) \<Rightarrow> nat \<Rightarrow> nat \<times> bool" where
  "sleep_from ms flag t =
     (if ms \<le> t + POLL then (ms, True)
      else if flag (t + POLL) then (t + POLL, False)
      else sleep_from ms flag (t + POLL))"
  by pat_completeness auto
termination
  by (relation "measure (\<lambda>(ms, flag, t). ms - t)") (auto simp: POLL_def)

declare sleep_from.simps [simp del]

definition sleep :: "nat \<Rightarrow> (nat \<Rightarrow> bool) \<Rightarrow> nat \<times> bool" where
  "sleep ms flag = sleep_from ms flag 0"

definition flag_from :: "nat option \<Rightarrow> nat \<Rightarrow> bool" where
  \<comment> \<open>the flag when a signal arrives at the given time, or never\<close>
  "flag_from sig t = (case sig of None \<Rightarrow> False | Some s \<Rightarrow> s \<le> t)"

section \<open>The rotation loop and the process\<close>

text \<open>
  The run environment gives the world of each visit, the time of a signal during the
  wait after each visit, and whether an error reaches the process-level handlers
  (\<open>unhandledRejection\<close>, \<open>uncaughtException\<close>) during a visit. The loop state holds
  the three counters, the shutdown flag as the loop reads it, the profiles visited,
  the calls made, the number of interval timers left armed, and the exit code once
  \<open>process.exit\<close> has been called.
\<close>

record run_env =
  devices_r :: "string \<Rightarrow> descriptor option"
  worlds :: "nat \<Rightarrow> world"
  sleep_signal :: "nat \<Rightarrow> nat option"
  fatal_in :: "nat \<Rightarrow> bool"

record loop_state =
  iteration :: nat
  successCount :: nat
  errorCount :: nat
  shutdownFlag :: bool
  visited :: "profile list"
  calls :: "action list"
  armed :: nat
  exited :: "nat option"

definition loop_init :: loop_state where
  "loop_init =
     \<lparr> iteration = 0, successCount = 0, errorCount = 0, shutdownFlag = False,
       visited = [], calls = [], armed = 0, exited = None \<rparr>"

definition count_result :: "bool \<Rightarrow> loop_state \<Rightarrow> loop_state" where
  "count_result success L =
     (if success then L\<lparr> successCount := successCount L + 1 \<rparr>
      else L\<lparr> errorCount := errorCount L + 1 \<rparr>)"

definition wait_next :: "run_env \<Rightarrow> nat \<Rightarrow> loop_state \<Rightarrow> loop_state" where
  \<comment> \<open>the guarded \<open>await sleep(CONFIG.INTERVAL)\<close> after visit \<open>i\<close>\<close>
  "wait_next env i L =
     (if \<not> shutdownFlag L \<and> iteration L < MAX_ITERATIONS then
        (case sleep INTERVAL (flag_from (sleep_signal env i)) of
           (woke, still_armed) \<Rightarrow>
             L\<lparr> armed := armed L + (if still_armed then 1 else 0),
                shutdownFlag := flag_from (sleep_signal env i) woke \<rparr>)
      else L)"

definition loop_body :: "run_env \<Rightarrow> string \<Rightarrow> loop_state \<Rightarrow> loop_state" where
  "loop_body env targetUrl L =
     (let i = iteration L;
          profile = selectProfile (devices_r env) i;
          r = test (worlds env i) profile i targetUrl new_DeviceTester;
          L1 = count_result (fst r) L;
          L2 = L1\<lparr> visited := visited L1 @ [profile],
                   calls := calls L1 @ trace (snd r),
                   shutdownFlag := isShuttingDown (snd r),
                   iteration := i + 1 \<rparr>
      in if fatal_in env i then L2\<lparr> exited := Some 1 \<rparr> else wait_next env i L2)"

function runLoop :: "run_env \<Rightarrow> string \<Rightarrow> loop_state \<Rightarrow> loop_state" where
  "runLoop env targetUrl L =
     (if \<not> shutdownFlag L \<and> exited L = None \<and> iteration L < MAX_ITERATIONS
      then runLoop env targetUrl (loop_body env targetUrl L)
      else L)"
  by pat_completeness auto
termination
  by (relation "measure (\<lambda>(env, targetUrl, L). MAX_ITERATIONS - iteration L)")
     (auto simp: loop_body_def wait_next_def count_result_def Let_def split: prod.splits)

declare runLoop.simps [simp del]

text \<open>
  How the process ends. A failed validation exits with the code of \<open>validateArguments\<close>
  before the loop starts. A process-level error handler exits with 1. After a signal,
  the handler's timer calls \<open>process.exit(0)\<close>. Otherwise \<open>runTests\<close> returns and the
  process ends with code 0 once nothing keeps the event loop alive; an armed interval
  timer does.
\<close>

datatype process_end = Exit nat | NeverExits

definition process_end_of :: "loop_state \<Rightarrow> process_end" where
  "process_end_of L =
     (case exited L of
        Some code \<Rightarrow> Exit code
      | None \<Rightarrow>
          if shutdownFlag L then Exit 0
          else if 0 < armed L then NeverExits
          else Exit 0)"

definition main :: "string list \<Rightarrow> run_env \<Rightarrow> process_end \<times> action list" where
  "main argv env =
     (case validateArguments argv of
        Inl code \<Rightarrow> (Exit code, [])
      | Inr targetUrl \<Rightarrow>
          (let L = runLoop env targetUrl (loop_init\<lparr> calls := [FsMkdir SCREENSHOT_DIR] \<rparr>)
           in (process_end_of L, calls L)))"

text \<open>
  The \<open>try\<close> block in three parts: up to the creation of the page, from the
  observers to the settle wait, and the two capture steps.
\<close>

definition launch_steps :: "world \<Rightarrow> profile \<Rightarrow> step list" where
  "launch_steps w p = [logHeader p, ensureScreenshotDir w, launch w, newContext w, newPage w]"

definition visit_steps :: "world \<Rightarrow> string \<Rightarrow> step list" where
  "visit_steps w targetUrl = [setupEventHandlers, loadPage w targetUrl, settle w]"

definition capture_steps :: "world \<Rightarrow> profile \<Rightarrow> step list" where
  "capture_steps w p = [takeScreenshot w p, collectPageInfo w]"

section \<open>Predicates on worlds and traces\<close>

definition page_created :: "world \<Rightarrow> profile \<Rightarrow> bool" where
  \<comment> \<open>every step up to \<open>newPage\<close> succeeds\<close>
  "page_created w p =
     (viewport p \<noteq> None \<and> (access_r w = None \<or> mkdir_r w = None) \<and> launch_r w = None
      \<and> newContext_r w = None \<and> newPage_r w = None)"

definition navigation_ok :: "world \<Rightarrow> bool" where
  \<comment> \<open>\<open>loadPage\<close> returns normally: a response below 400, no response, or a timeout\<close>
  "navigation_ok w =
     (case goto_r w of
        Inl e \<Rightarrow> err_name e = ''TimeoutError''
      | Inr None \<Rightarrow> True
      | Inr (Some r) \<Rightarrow> rstatus r < 400)"

fun failed_response :: "event \<Rightarrow> bool" where
  "failed_response (Response st) = (400 \<le> st)"
| "failed_response _ = False"

definition no_failed_response :: "event list \<Rightarrow> bool" where
  "no_failed_response es = (filter failed_response es = [])"

fun is_shot :: "action \<Rightarrow> bool" where
  "is_shot (Screenshot path full) = True"
| "is_shot _ = False"

fun is_close :: "action \<Rightarrow> bool" where
  "is_close ClosePage = True"
| "is_close CloseContext = True"
| "is_close CloseBrowser = True"
| "is_close _ = False"

definition closes_ok :: "session \<Rightarrow> bool" where
  \<comment> \<open>close calls appear only once \<open>cleanupCalled\<close> is set, and each at most once\<close>
  "closes_ok s =
     ((cleanupCalled s \<or> filter is_close (trace s) = [])
      \<and> count_list (trace s) ClosePage \<le> 1
      \<and> count_list (trace s) CloseContext \<le> 1
      \<and> count_list (trace s) CloseBrowser \<le> 1)"

definition shots_need_page :: "session \<Rightarrow> bool" where
  "shots_need_page s = (page s \<or> filter is_shot (trace s) = [])"

definition signal_free :: "world \<Rightarrow> bool" where
  "signal_free w = (\<forall>st. Signal \<notin> set (events w st))"

section \<open>Sample inputs\<close>

definition calm_world :: world where
  \<comment> \<open>every call succeeds, the page answers 200, no event arrives\<close>
  "calm_world =
     \<lparr> access_r = None, mkdir_r = None, launch_r = None, newContext_r = None,
       newPage_r = None, goto_r = Inr (Some \<lparr> rstatus = 200, rstatusText = ''OK'' \<rparr>),
       waitForTimeout_r = None, screenshot_r = None, title_r = Inr ''Example Domain'',
       errorScreenshot_r = None, isClosed_r = False, now_r = ''2026-01-01T00:00:00.000Z'',
       events = (\<lambda>st. []) \<rparr>"

definition world_404 :: world where
  "world_404 = calm_world\<lparr> goto_r := Inr (Some \<lparr> rstatus = 404, rstatusText = ''Not Found'' \<rparr>) \<rparr>"

definition world_404_then_500 :: world where
  \<comment> \<open>as \<open>world_404\<close>, and a later request of the page is answered 500 while the error
     screenshot is being taken\<close>
  "world_404_then_500 =
     world_404\<lparr> events := (\<lambda>st. if st = AtErrorScreenshot then [Response 500] else []) \<rparr>"

definition world_timeout :: world where
  "world_timeout =
     calm_world\<lparr> goto_r := Inl (JsError ''TimeoutError'' ''page.goto: Timeout 60000ms exceeded.'') \<rparr>"

definition world_capture_fails :: world where
  "world_capture_fails =
     calm_world\<lparr> screenshot_r := Some (JsError ''Error'' ''page.screenshot: failed''),
                 title_r := Inl (JsError ''Error'' ''page.title: failed'') \<rparr>"

definition world_launch_fails :: world where
  "world_launch_fails =
     calm_world\<lparr> launch_r := Some (JsError ''Error'' ''browserType.launch: failed'') \<rparr>"

definition sample_descriptor :: descriptor where
  "sample_descriptor =
     \<lparr> d_viewport = (393, 659), d_userAgent = ''Mozilla/5.0'', d_deviceScaleFactor = 3,
       d_isMobile = True, d_hasTouch = True \<rparr>"

definition sample_argv :: "string list" where
  "sample_argv = [''node'', ''device-rotation-test.js'', ''https://example.com'']"

definition calm_env :: run_env where
  \<comment> \<open>every visit in the calm world, no signal, no fatal error\<close>
  "calm_env =
     \<lparr> devices_r = (\<lambda>n. Some sample_descriptor), worlds = (\<lambda>i. calm_world),
       sleep_signal = (\<lambda>i. None), fatal_in = (\<lambda>i. False) \<rparr>"

section \<open>Runs without disturbance\<close>

definition undisturbed :: "run_env \<Rightarrow> bool" where
  "undisturbed env =
     (\<forall>i. signal_free (worlds env i) \<and> sleep_signal env i = None \<and> \<not> fatal_in env i)"

definition on_course :: "loop_state \<Rightarrow> bool" where
  "on_course L =
     (\<not> shutdownFlag L \<and> exited L = None \<and> iteration L \<le> MAX_ITERATIONS
      \<and> armed L = min (iteration L) (MAX_ITERATIONS - 1))"

section \<open>Strings and file names: proofs\<close>

lemma lower_char_alnum: "is_lower_or_digit (lower_char c) = is_alnum c"
  unfolding lower_char_def is_alnum_def is_upper_def is_lower_or_digit_def char_code_def
  by auto

lemma safeName_map:
  "safeName s = map (\<lambda>c. if is_alnum c then lower_char c else CHR ''-'') s"
  by (simp add: safeName_def replace_class_def toLowerCase_def lower_char_alnum)

lemma safeName_ipad: "safeName ''iPad (gen 7)'' = ''ipad--gen-7-''"
  by code_simp

lemma slugify_spec_ipad: "slugify_spec ''iPad (gen 7)'' = ''ipad-gen-7-''"
  by code_simp

text \<open>
  C1, as stated, fails: the replacement works on single characters, so the catalog
  name \<open>iPad (gen 7)\<close> gets two adjacent separators where the space and the
  parenthesis were, and the slug differs from the one with collapsed runs.
\<close>

theorem safeName_runs_counterexample:
  "safeName ''iPad (gen 7)'' = ''ipad--gen-7-''
   \<and> safeName ''iPad (gen 7)'' \<noteq> slugify_spec ''iPad (gen 7)''
   \<and> \<not> no_adjacent_separators (safeName ''iPad (gen 7)'')"
  by (simp add: safeName_ipad slugify_spec_ipad)

text \<open>
  C1, amended: for every profile name of ASCII characters, the slug has the length of
  the name; at each position it holds the lowercased character where the name has a
  letter or a digit, and the separator where it has any other character. Hence the
  slug has as many separators as the name has non-alphanumeric characters: a run of
  \<open>k\<close> of them gives \<open>k\<close> separators.
\<close>

theorem safeName_charwise:
  assumes "ascii_only profileName"
  shows "length (safeName profileName) = length profileName
    \<and> (\<forall>i < length profileName.
          safeName profileName ! i =
            (if is_alnum (profileName ! i) then lower_char (profileName ! i) else CHR ''-''))
    \<and> count_list (safeName profileName) (CHR ''-'')
        = length (filter (\<lambda>c. \<not> is_alnum c) profileName)"
proof -
  have dash: "\<not> is_lower_or_digit (CHR ''-'')"
    by (simp add: is_lower_or_digit_def char_code_def)
  have sep: "lower_char c \<noteq> CHR ''-''" if "is_alnum c" for c
    using that dash lower_char_alnum [of c] by auto
  have "count_list (map (\<lambda>c. if is_alnum c then lower_char c else CHR ''-'') s) (CHR ''-'')
        = length (filter (\<lambda>c. \<not> is_alnum c) s)" for s
    by (induction s) (auto simp: sep)
  then show ?thesis
    by (simp add: safeName_map)
qed

theorem safeName_charwise_witness:
  "ascii_only ''iPad (gen 7)'' \<and> length (safeName ''iPad (gen 7)'') = 12
   \<and> safeName ''iPad (gen 7)'' ! 4 = CHR ''-'' \<and> safeName ''iPad (gen 7)'' ! 5 = CHR ''-''
   \<and> count_list (safeName ''iPad (gen 7)'') (CHR ''-'') = 4"
proof -
  have a: "ascii_only ''iPad (gen 7)''"
    by code_simp
  have f: "length (filter (\<lambda>c. \<not> is_alnum c) ''iPad (gen 7)'') = 4"
    by code_simp
  have n: "\<not> is_alnum (CHR '' '')" "\<not> is_alnum (CHR ''('')"
    by code_simp+
  from safeName_charwise [OF a] a f n show ?thesis
    by simp
qed

section \<open>Argument validation: proofs\<close>

text \<open>
  C6: validation exits with code 1 exactly when the third element of the argument
  vector is missing or begins with neither \<open>http://\<close> nor \<open>https://\<close>, and then the
  process ends with that code without any call into the file system or the browser;
  otherwise it returns the argument unchanged.
\<close>

theorem validateArguments_exact:
  "validateArguments argv =
     (if 2 < length argv
         \<and> (startsWith (argv ! 2) ''http://'' \<or> startsWith (argv ! 2) ''https://'')
      then Inr (argv ! 2) else Inl 1)
   \<and> (validateArguments argv = Inl 1 \<longrightarrow> main argv env = (Exit 1, []))"
  by (auto simp: validateArguments_def argv_at_def startsWith_def main_def)

theorem validateArguments_exact_witness:
  "validateArguments [''node'', ''device-rotation-test.js''] = Inl 1
   \<and> main [''node'', ''device-rotation-test.js''] calm_env = (Exit 1, [])
   \<and> validateArguments [''node'', ''device-rotation-test.js'', ''ftp://example.com''] = Inl 1
   \<and> main [''node'', ''device-rotation-test.js'', ''ftp://example.com''] calm_env = (Exit 1, [])
   \<and> validateArguments sample_argv = Inr ''https://example.com''"
  using validateArguments_exact [of "[''node'', ''device-rotation-test.js'']" calm_env]
    validateArguments_exact [of "[''node'', ''device-rotation-test.js'', ''ftp://example.com'']" calm_env]
    validateArguments_exact [of sample_argv calm_env]
  by (simp add: startsWith_def sample_argv_def)

section \<open>The session: what handlers and calls leave unchanged\<close>

lemma call_fields [simp]:
  "page (call a s) = page s"
  "browser (call a s) = browser s"
  "browserContext (call a s) = browserContext s"
  "status (call a s) = status s"
  "error (call a s) = error s"
  "screenshotTaken (call a s) = screenshotTaken s"
  "screenshotPath (call a s) = screenshotPath s"
  "observed (call a s) = observed s"
  "httpStatus (call a s) = httpStatus s"
  "isShuttingDown (call a s) = isShuttingDown s"
  "cleanupCalled (call a s) = cleanupCalled s"
  "trace (call a s) = trace s @ [a]"
  by (simp_all add: call_def)

lemma cleanup_start_fields [simp]:
  "page (cleanup_start w s) = page s"
  "browser (cleanup_start w s) = browser s"
  "browserContext (cleanup_start w s) = browserContext s"
  "status (cleanup_start w s) = status s"
  "error (cleanup_start w s) = error s"
  "screenshotTaken (cleanup_start w s) = screenshotTaken s"
  "screenshotPath (cleanup_start w s) = screenshotPath s"
  "observed (cleanup_start w s) = observed s"
  "httpStatus (cleanup_start w s) = httpStatus s"
  "isShuttingDown (cleanup_start w s) = isShuttingDown s"
  by (simp_all add: cleanup_start_def Let_def)

lemma handle_fields [simp]:
  "page (handle w e s) = page s"
  "browser (handle w e s) = browser s"
  "browserContext (handle w e s) = browserContext s"
  "status (handle w e s) = status s"
  "error (handle w e s) = error s"
  "screenshotTaken (handle w e s) = screenshotTaken s"
  "screenshotPath (handle w e s) = screenshotPath s"
  "observed (handle w e s) = observed s"
  by (cases e; simp add: gracefulShutdown_def)+

lemma foldl_handle_invariant:
  assumes "\<And>e s. e \<in> set es \<Longrightarrow> P s \<Longrightarrow> P (handle w e s)" and "P s"
  shows "P (foldl (\<lambda>s e. handle w e s) s es)"
  using assms by (induction es arbitrary: s) simp_all

lemma await_invariant:
  assumes "\<And>e s. e \<in> set (events w st) \<Longrightarrow> P s \<Longrightarrow> P (handle w e s)" and "P s"
  shows "P (await w st s)"
  unfolding await_def using assms by (rule foldl_handle_invariant)

lemma foldl_handle_fields:
  "page (foldl (\<lambda>s e. handle w e s) s es) = page s
   \<and> browser (foldl (\<lambda>s e. handle w e s) s es) = browser s
   \<and> browserContext (foldl (\<lambda>s e. handle w e s) s es) = browserContext s
   \<and> status (foldl (\<lambda>s e. handle w e s) s es) = status s
   \<and> error (foldl (\<lambda>s e. handle w e s) s es) = error s
   \<and> screenshotTaken (foldl (\<lambda>s e. handle w e s) s es) = screenshotTaken s
   \<and> screenshotPath (foldl (\<lambda>s e. handle w e s) s es) = screenshotPath s
   \<and> observed (foldl (\<lambda>s e. handle w e s) s es) = observed s"
  by (induction es arbitrary: s) simp_all

lemma await_fields [simp]:
  "page (await w st s) = page s"
  "browser (await w st s) = browser s"
  "browserContext (await w st s) = browserContext s"
  "status (await w st s) = status s"
  "error (await w st s) = error s"
  "screenshotTaken (await w st s) = screenshotTaken s"
  "screenshotPath (await w st s) = screenshotPath s"
  "observed (await w st s) = observed s"
  by (simp_all add: await_def foldl_handle_fields)

lemma cleanup_fields [simp]:
  "page (cleanup w s) = page s"
  "browser (cleanup w s) = browser s"
  "browserContext (cleanup w s) = browserContext s"
  "status (cleanup w s) = status s"
  "error (cleanup w s) = error s"
  "screenshotTaken (cleanup w s) = screenshotTaken s"
  "screenshotPath (cleanup w s) = screenshotPath s"
  "observed (cleanup w s) = observed s"
  by (simp_all add: cleanup_def)

text \<open>The trace only grows.\<close>

lemma trace_cleanup_start: "\<exists>xs. trace (cleanup_start w s) = trace s @ xs"
  by (simp add: cleanup_start_def Let_def)

lemma trace_handle: "\<exists>xs. trace (handle w e s) = trace s @ xs"
  using trace_cleanup_start [of w "s\<lparr>isShuttingDown := True\<rparr>"]
  by (cases e) (simp_all add: gracefulShutdown_def)

lemma trace_await: "\<exists>xs. trace (await w st s) = trace s @ xs"
proof (rule await_invariant [where P = "\<lambda>t. \<exists>xs. trace t = trace s @ xs"])
  fix e and t :: session
  assume "\<exists>xs. trace t = trace s @ xs"
  then obtain xs where 1: "trace t = trace s @ xs" ..
  obtain ys where "trace (handle w e t) = trace t @ ys"
    using trace_handle by blast
  with 1 show "\<exists>xs. trace (handle w e t) = trace s @ xs"
    by simp
qed simp

lemma in_trace_await [simp]: "a \<in> set (trace s) \<Longrightarrow> a \<in> set (trace (await w st s))"
  using trace_await [of w st s] by auto

lemma in_trace_cleanup [simp]: "a \<in> set (trace s) \<Longrightarrow> a \<in> set (trace (cleanup w s))"
  using trace_cleanup_start [of w s] trace_await [of w AtCleanup "cleanup_start w s"]
  by (auto simp: cleanup_def)

text \<open>The observer changes \<open>httpStatus\<close> only on a response of 400 or more.\<close>

lemma httpStatus_await:
  assumes "no_failed_response (events w st)"
  shows "httpStatus (await w st s) = httpStatus s"
proof (rule await_invariant [where P = "\<lambda>t. httpStatus t = httpStatus s"])
  fix e and t :: session
  assume e: "e \<in> set (events w st)" and h: "httpStatus t = httpStatus s"
  from e assms have nf: "\<not> failed_response e"
    by (auto simp: no_failed_response_def filter_empty_conv)
  from h nf show "httpStatus (handle w e t) = httpStatus s"
    by (cases e) (simp_all add: gracefulShutdown_def)
qed simp

lemma httpStatus_cleanup:
  assumes "no_failed_response (events w AtCleanup)"
  shows "httpStatus (cleanup w s) = httpStatus s"
  using assms by (simp add: cleanup_def httpStatus_await)

section \<open>Sequencing and invariants of a session\<close>

lemma seq_append:
  "seq (fs @ gs) s = (case seq fs s of (Some e, s') \<Rightarrow> (Some e, s') | (None, s') \<Rightarrow> seq gs s')"
  by (induction fs arbitrary: s) (auto split: prod.splits option.splits)

lemma seq_invariant:
  assumes "\<And>f s. f \<in> set fs \<Longrightarrow> P s \<Longrightarrow> P (snd (f s))" and "P s"
  shows "P (snd (seq fs s))"
  using assms
proof (induction fs arbitrary: s)
  case Nil
  then show ?case by simp
next
  case (Cons f fs)
  have step: "P (snd (f s))"
    using Cons.prems by simp
  show ?case
  proof (cases "f s")
    case (Pair r s')
    with step have "P s'" by simp
    then have "P (snd (seq fs s'))"
      using Cons.IH Cons.prems(1) by simp
    with Pair step show ?thesis
      by (cases r) simp_all
  qed
qed

lemma test_try_parts:
  "test_try w p u = seq (launch_steps w p @ visit_steps w u @ capture_steps w p)"
  by (simp add: test_try_def launch_steps_def visit_steps_def capture_steps_def)

text \<open>
  A property of sessions holds after \<open>test\<close> when it holds before and every handler,
  every call other than a close, the close calls of \<open>cleanup\<close> and every assignment
  keep it. A screenshot is only ever requested when the page exists.
\<close>

lemma test_invariant:
  assumes aw: "\<And>st s. P s \<Longrightarrow> P (await w st s)"
    and ca: "\<And>a s. P s \<Longrightarrow> (is_shot a \<longrightarrow> page s) \<Longrightarrow> \<not> is_close a \<Longrightarrow> P (call a s)"
    and cl: "\<And>s. P s \<Longrightarrow> P (cleanup_start w s)"
    and u1: "\<And>s. P s \<Longrightarrow> P (s\<lparr>browser := True\<rparr>)"
    and u2: "\<And>s. P s \<Longrightarrow> P (s\<lparr>browserContext := True\<rparr>)"
    and u3: "\<And>s. P s \<Longrightarrow> P (s\<lparr>page := True\<rparr>)"
    and u4: "\<And>s. P s \<Longrightarrow> P (s\<lparr>observed := True\<rparr>)"
    and u5: "\<And>s v. P s \<Longrightarrow> P (s\<lparr>httpStatus := v\<rparr>)"
    and u6: "\<And>s v. P s \<Longrightarrow> P (s\<lparr>screenshotTaken := True, screenshotPath := v\<rparr>)"
    and u7: "\<And>s v. P s \<Longrightarrow> P (s\<lparr>status := v\<rparr>)"
    and u8: "\<And>s v x. P s \<Longrightarrow> P (s\<lparr>status := v, error := x\<rparr>)"
    and init: "P s"
  shows "P (snd (test w p i u s))"
proof -
  have s1: "P (snd (logHeader p s))" if "P s" for s
    using that by (simp add: logHeader_def split: option.splits)
  have s2: "P (snd (ensureScreenshotDir w s))" if "P s" for s
    using that by (simp add: ensureScreenshotDir_def Let_def aw ca split: option.splits)
  have s3: "P (snd (launch w s))" if "P s" for s
    using that by (simp add: launch_def Let_def aw ca u1 split: option.splits)
  have s4: "P (snd (newContext w s))" if "P s" for s
    using that by (simp add: newContext_def Let_def aw ca u2 split: option.splits)
  have s5: "P (snd (newPage w s))" if "P s" for s
    using that by (simp add: newPage_def Let_def aw ca u3 split: option.splits)
  have s6: "P (snd (setupEventHandlers s))" if "P s" for s
    using that by (simp add: setupEventHandlers_def u4)
  have s7a: "P (snd (loadPage_try w u s))" if "P s" for s
    using that by (simp add: loadPage_try_def Let_def aw ca u5 split: option.splits sum.splits)
  have s7: "P (snd (loadPage w u s))" if "P s" for s
    using s7a [OF that]
    by (cases "loadPage_try w u s") (auto simp: loadPage_def split: option.splits)
  have s8: "P (snd (settle w s))" if "P s" for s
    using that by (simp add: settle_def aw ca)
  have s9: "P (snd (takeScreenshot w p s))" if "P s" for s
    using that by (simp add: takeScreenshot_def Let_def aw ca u6 split: option.splits)
  have s10: "P (snd (collectPageInfo w s))" if "P s" for s
    using that by (simp add: collectPageInfo_def aw ca)
  have body: "P (snd (test_try w p u s))"
    unfolding test_try_def
    by (rule seq_invariant [where P = P, OF _ init]) (auto simp: s1 s2 s3 s4 s5 s6 s7 s8 s9 s10)
  have fin: "P (cleanup w s)" if "P s" for s
    using that by (simp add: cleanup_def aw cl)
  have es: "P (takeErrorScreenshot w p s)" if "P s" for s
    using that by (simp add: takeErrorScreenshot_def aw ca)
  show ?thesis
  proof (cases "test_try w p u s")
    case (Pair r s')
    with body have "P s'" by simp
    with Pair show ?thesis
      by (cases r) (simp_all add: test_def fin es u7 u8)
  qed
qed

lemma fst_test: "fst (test w p i u s) = (fst (test_try w p u s) = None)"
  by (cases "test_try w p u s") (auto simp: test_def split: option.splits)

lemma status_test:
  "status (snd (test w p i u s)) = (if fst (test w p i u s) then StatusSuccess else StatusError)"
  by (cases "test_try w p u s")
     (auto simp: test_def takeErrorScreenshot_def split: option.splits)

lemma page_test: "page (snd (test w p i u s)) = page (snd (test_try w p u s))"
  by (cases "test_try w p u s")
     (auto simp: test_def takeErrorScreenshot_def split: option.splits)

section \<open>The three parts of a session\<close>

lemmas step_defs =
  logHeader_def ensureScreenshotDir_def launch_def newContext_def newPage_def
  setupEventHandlers_def loadPage_def loadPage_try_def settle_def takeScreenshot_def
  collectPageInfo_def

lemma fst_seq_append:
  "fst (seq (fs @ gs) s) =
     (case fst (seq fs s) of Some e \<Rightarrow> Some e | None \<Rightarrow> fst (seq gs (snd (seq fs s))))"
  by (cases "seq fs s") (auto simp: seq_append split: option.splits)

lemma launch_part:
  "(fst (seq (launch_steps w p) new_DeviceTester) = None) = page_created w p"
  "page (snd (seq (launch_steps w p) new_DeviceTester)) = page_created w p"
  by (auto simp: launch_steps_def page_created_def step_defs new_DeviceTester_def Let_def
      split: option.splits)

lemma visit_part:
  "page s \<Longrightarrow>
     (fst (seq (visit_steps w u) s) = None) = (navigation_ok w \<and> waitForTimeout_r w = None)"
  by (auto simp: visit_steps_def navigation_ok_def step_defs http_error_def Let_def
      split: option.splits sum.splits)

lemma capture_part: "fst (seq (capture_steps w p) s) = None"
  by (simp add: capture_steps_def takeScreenshot_def collectPageInfo_def Let_def
      split: option.splits)

lemma keeps_page:
  assumes "f \<in> set (visit_steps w u @ capture_steps w p)"
  shows "page (snd (f s)) = page s"
proof -
  have "page (snd (setupEventHandlers s)) = page s"
    by (simp add: setupEventHandlers_def)
  moreover have "page (snd (loadPage_try w u s)) = page s"
    by (simp add: loadPage_try_def Let_def split: option.splits sum.splits)
  then have "page (snd (loadPage w u s)) = page s"
    by (cases "loadPage_try w u s") (auto simp: loadPage_def split: option.splits)
  moreover have "page (snd (settle w s)) = page s"
    by (simp add: settle_def)
  moreover have "page (snd (takeScreenshot w p s)) = page s"
    by (simp add: takeScreenshot_def Let_def split: option.splits)
  moreover have "page (snd (collectPageInfo w s)) = page s"
    by (simp add: collectPageInfo_def)
  ultimately show ?thesis
    using assms by (auto simp: visit_steps_def capture_steps_def)
qed

lemma page_after_launch_part:
  "page (snd (seq (visit_steps w u @ capture_steps w p) s)) = page s"
  by (rule seq_invariant [where P = "\<lambda>t. page t = page s"]) (simp_all add: keeps_page)

lemma page_test_try: "page (snd (test_try w p u new_DeviceTester)) = page_created w p"
proof (cases "seq (launch_steps w p) new_DeviceTester")
  case (Pair r s')
  with launch_part(2) [of w p] have "page s' = page_created w p"
    by simp
  with Pair show ?thesis
    by (cases r) (simp_all add: test_try_parts seq_append [of "launch_steps w p"] page_after_launch_part)
qed

lemma fst_test_try_any:
  "fst (test_try w p u s) = fst (seq (launch_steps w p @ visit_steps w u) s)"
proof -
  have "fst (test_try w p u s)
          = fst (seq ((launch_steps w p @ visit_steps w u) @ capture_steps w p) s)"
    by (simp add: test_try_parts)
  also have "\<dots> = fst (seq (launch_steps w p @ visit_steps w u) s)"
    unfolding fst_seq_append [of "launch_steps w p @ visit_steps w u"]
    by (simp add: capture_part split: option.splits)
  finally show ?thesis .
qed

lemma test_classified:
  "fst (test w p i u new_DeviceTester)
     = (page_created w p \<and> navigation_ok w \<and> waitForTimeout_r w = None)"
proof (cases "page_created w p")
  case True
  then have "fst (seq (launch_steps w p) new_DeviceTester) = None"
    and "page (snd (seq (launch_steps w p) new_DeviceTester))"
    by (simp_all add: launch_part)
  then show ?thesis
    using True by (simp add: fst_test fst_test_try_any fst_seq_append visit_part)
next
  case False
  then have "fst (seq (launch_steps w p) new_DeviceTester) \<noteq> None"
    by (simp add: launch_part)
  then show ?thesis
    using False by (auto simp: fst_test fst_test_try_any fst_seq_append)
qed

lemma error_shot_with_page:
  "page (snd (test w p i u s)) \<Longrightarrow> \<not> fst (test w p i u s) \<Longrightarrow>
   Screenshot (errorScreenshotPath_of (name p)) False \<in> set (trace (snd (test w p i u s)))"
  by (cases "test_try w p u s")
     (auto simp: test_def takeErrorScreenshot_def split: option.splits)

section \<open>Invariants of a session: proofs\<close>

lemma count_list_snoc: "count_list (xs @ [a]) b = count_list xs b + (if a = b then 1 else 0)"
  by (induction xs) auto

lemma no_close_count:
  "filter is_close xs = [] \<Longrightarrow>
     count_list xs ClosePage = 0 \<and> count_list xs CloseContext = 0 \<and> count_list xs CloseBrowser = 0"
  by (induction xs) (auto split: if_splits)

lemma closes_ok_cleanup_start: "closes_ok s \<Longrightarrow> closes_ok (cleanup_start w s)"
  by (auto simp: closes_ok_def cleanup_start_def call_def Let_def count_list_snoc
      dest: no_close_count)

lemma closes_ok_handle: "closes_ok s \<Longrightarrow> closes_ok (handle w e s)"
proof (cases e)
  case (Response st)
  assume "closes_ok s"
  then show ?thesis using Response by (simp add: closes_ok_def)
next
  case Signal
  assume "closes_ok s"
  then have "closes_ok (s\<lparr>isShuttingDown := True\<rparr>)" by (simp add: closes_ok_def)
  then show ?thesis using Signal by (simp add: gracefulShutdown_def closes_ok_cleanup_start)
qed simp_all

lemma closes_ok_await: "closes_ok s \<Longrightarrow> closes_ok (await w st s)"
  by (rule await_invariant) (simp_all add: closes_ok_handle)

lemma closes_ok_call: "closes_ok s \<Longrightarrow> \<not> is_close a \<Longrightarrow> closes_ok (call a s)"
  by (cases a) (auto simp: closes_ok_def count_list_snoc)

lemma closes_ok_test: "closes_ok (snd (test w p i u new_DeviceTester))"
proof (rule test_invariant [where P = closes_ok])
  show "closes_ok new_DeviceTester"
    by (simp add: closes_ok_def new_DeviceTester_def)
qed (simp_all add: closes_ok_await closes_ok_call closes_ok_cleanup_start,
     simp_all add: closes_ok_def)

lemma cleanupCalled_cleanup_start [simp]: "cleanupCalled (cleanup_start w s)"
  by (simp add: cleanup_start_def Let_def)

lemma cleanupCalled_handle: "cleanupCalled s \<Longrightarrow> cleanupCalled (handle w e s)"
  by (cases e) (simp_all add: gracefulShutdown_def)

lemma cleanupCalled_await: "cleanupCalled s \<Longrightarrow> cleanupCalled (await w st s)"
  by (rule await_invariant) (simp_all add: cleanupCalled_handle)

lemma cleanupCalled_cleanup [simp]: "cleanupCalled (cleanup w s)"
  by (simp add: cleanup_def cleanupCalled_await)

lemma cleanupCalled_gracefulShutdown [simp]: "cleanupCalled (gracefulShutdown w s)"
  by (simp add: gracefulShutdown_def)

lemma shots_cleanup_start: "shots_need_page s \<Longrightarrow> shots_need_page (cleanup_start w s)"
  by (auto simp: shots_need_page_def cleanup_start_def call_def Let_def)

lemma shots_handle: "shots_need_page s \<Longrightarrow> shots_need_page (handle w e s)"
proof (cases e)
  case Signal
  assume "shots_need_page s"
  then have "shots_need_page (s\<lparr>isShuttingDown := True\<rparr>)" by (simp add: shots_need_page_def)
  then show ?thesis using Signal by (simp add: gracefulShutdown_def shots_cleanup_start)
qed (simp_all add: shots_need_page_def)

lemma shots_await: "shots_need_page s \<Longrightarrow> shots_need_page (await w st s)"
  by (rule await_invariant) (simp_all add: shots_handle)

lemma shots_test: "shots_need_page (snd (test w p i u new_DeviceTester))"
proof (rule test_invariant [where P = shots_need_page])
  show "shots_need_page new_DeviceTester"
    by (simp add: shots_need_page_def new_DeviceTester_def)
qed (simp_all add: shots_await shots_cleanup_start, auto simp: shots_need_page_def)

lemma flag_await:
  assumes "signal_free w" "\<not> isShuttingDown s"
  shows "\<not> isShuttingDown (await w st s)"
proof (rule await_invariant [where P = "\<lambda>t. \<not> isShuttingDown t"])
  fix e and t :: session
  assume "e \<in> set (events w st)" and "\<not> isShuttingDown t"
  with assms(1) show "\<not> isShuttingDown (handle w e t)"
    by (cases e) (auto simp: signal_free_def)
qed (rule assms(2))

lemma flag_test:
  assumes "signal_free w"
  shows "\<not> isShuttingDown (snd (test w p i u new_DeviceTester))"
proof (rule test_invariant [where P = "\<lambda>s. \<not> isShuttingDown s"])
  show "\<not> isShuttingDown new_DeviceTester"
    by (simp add: new_DeviceTester_def)
qed (simp_all add: flag_await assms)

section \<open>Claims about a session\<close>

lemma no_failed_response_append:
  "no_failed_response (xs @ ys) = (no_failed_response xs \<and> no_failed_response ys)"
  by (simp add: no_failed_response_def)

lemma page_created_404: "page_created world_404 desktop_chrome"
  by (simp add: page_created_def world_404_def calm_world_def desktop_chrome_def)

lemma error_path_desktop:
  "errorScreenshotPath_of (name desktop_chrome) = ''screenshots/error-screenshot-desktop-chrome.png''"
  by code_simp

text \<open>
  C2, as stated, fails in its middle part: the response observer stays attached after
  the navigation, so a later response of the page with a status of 400 or more
  overwrites \<open>httpStatus\<close>. Here the navigation is answered 404 and a later request
  500, while the error screenshot is being taken; the session ends with 500.
\<close>

theorem httpStatus_overwritten_counterexample:
  "page_created world_404_then_500 desktop_chrome
   \<and> goto_r world_404_then_500 = Inr (Some \<lparr> rstatus = 404, rstatusText = ''Not Found'' \<rparr>)
   \<and> httpStatus (snd (test world_404_then_500 desktop_chrome 0 ''https://example.com''
                         new_DeviceTester)) = 500"
  by (simp add: page_created_def world_404_then_500_def world_404_def calm_world_def
      desktop_chrome_def test_def test_try_def step_defs takeErrorScreenshot_def cleanup_def
      cleanup_start_def await_def call_def new_DeviceTester_def http_error_def Let_def)

text \<open>
  C2, amended: for every visit whose navigation completes with a response of status
  400 or more, the session classifies as error, an error screenshot is attempted, and
  \<open>httpStatus\<close> equals that status when the navigation step ends; it still equals it
  at the end of the session when no response with a status of 400 or more is observed
  during the error screenshot or the cleanup.
\<close>

theorem http_error_classified:
  assumes "page_created w p" and "goto_r w = Inr (Some r)" and "400 \<le> rstatus r"
  shows "\<not> fst (test w p i u new_DeviceTester)
    \<and> status (snd (test w p i u new_DeviceTester)) = StatusError
    \<and> error (snd (test w p i u new_DeviceTester)) = Some (err_message (http_error r))
    \<and> Screenshot (errorScreenshotPath_of (name p)) False
         \<in> set (trace (snd (test w p i u new_DeviceTester)))
    \<and> httpStatus (snd (test_try w p u new_DeviceTester)) = rstatus r
    \<and> (no_failed_response (events w AtErrorScreenshot @ events w AtCleanup) \<longrightarrow>
         httpStatus (snd (test w p i u new_DeviceTester)) = rstatus r)"
proof -
  have nav: "\<not> navigation_ok w"
    using assms by (simp add: navigation_ok_def)
  then have 1: "\<not> fst (test w p i u new_DeviceTester)"
    by (simp add: test_classified)
  have pg: "page (snd (test w p i u new_DeviceTester))"
    using assms(1) by (simp add: page_test page_test_try)
  have 2: "Screenshot (errorScreenshotPath_of (name p)) False
         \<in> set (trace (snd (test w p i u new_DeviceTester)))"
    using pg 1 by (rule error_shot_with_page)
  have 3: "test_try w p u new_DeviceTester
            = (Some (http_error r), snd (test_try w p u new_DeviceTester))
          \<and> httpStatus (snd (test_try w p u new_DeviceTester)) = rstatus r"
    using assms
    by (auto simp: page_created_def test_try_def step_defs new_DeviceTester_def http_error_def
        Let_def split: option.splits)
  then have 4: "error (snd (test w p i u new_DeviceTester)) = Some (err_message (http_error r))"
    by (cases "test_try w p u new_DeviceTester") (auto simp: test_def takeErrorScreenshot_def)
  have 5: "httpStatus (snd (test w p i u new_DeviceTester)) = rstatus r"
    if "no_failed_response (events w AtErrorScreenshot @ events w AtCleanup)"
    using 3 that
    by (cases "test_try w p u new_DeviceTester")
       (auto simp: test_def takeErrorScreenshot_def no_failed_response_append
          httpStatus_await httpStatus_cleanup)
  from 1 2 3 4 5 show ?thesis
    by (simp add: status_test)
qed

theorem http_error_classified_witness:
  "page_created world_404 desktop_chrome
   \<and> goto_r world_404 = Inr (Some \<lparr> rstatus = 404, rstatusText = ''Not Found'' \<rparr>)
   \<and> \<not> fst (test world_404 desktop_chrome 0 ''https://example.com'' new_DeviceTester)
   \<and> status (snd (test world_404 desktop_chrome 0 ''https://example.com'' new_DeviceTester))
       = StatusError
   \<and> Screenshot ''screenshots/error-screenshot-desktop-chrome.png'' False
       \<in> set (trace (snd (test world_404 desktop_chrome 0 ''https://example.com''
                              new_DeviceTester)))
   \<and> httpStatus (snd (test world_404 desktop_chrome 0 ''https://example.com'' new_DeviceTester))
       = 404"
proof -
  have g: "goto_r world_404 = Inr (Some \<lparr> rstatus = 404, rstatusText = ''Not Found'' \<rparr>)"
    by (simp add: world_404_def calm_world_def)
  have s: "(400::nat) \<le> rstatus \<lparr> rstatus = 404, rstatusText = ''Not Found'' \<rparr>"
    by simp
  have q: "no_failed_response (events world_404 AtErrorScreenshot @ events world_404 AtCleanup)"
    by (simp add: world_404_def calm_world_def no_failed_response_def)
  from http_error_classified [OF page_created_404 g s, of 0 "''https://example.com''"] q g
  show ?thesis
    by (simp add: page_created_404 error_path_desktop)
qed

text \<open>
  C3: when the page was created and the navigation raises an error named
  \<open>TimeoutError\<close>, \<open>loadPage\<close> returns normally, the session goes on to the settle
  wait, and, when the settle wait does not fail, through the capture and the
  info-collection steps to the classification success.
\<close>

theorem navigation_timeout_swallowed:
  assumes "page_created w p" and "goto_r w = Inl e" and "err_name e = ''TimeoutError''"
  shows "(page s \<longrightarrow> fst (loadPage w u s) = None)
    \<and> WaitForTimeout SDK_WAIT \<in> set (trace (snd (test w p i u new_DeviceTester)))
    \<and> (waitForTimeout_r w = None \<longrightarrow>
         fst (test w p i u new_DeviceTester)
         \<and> status (snd (test w p i u new_DeviceTester)) = StatusSuccess
         \<and> error (snd (test w p i u new_DeviceTester)) = None
         \<and> Screenshot (screenshotPath_of (now_r w) (name p)) True
             \<in> set (trace (snd (test w p i u new_DeviceTester)))
         \<and> Title \<in> set (trace (snd (test w p i u new_DeviceTester))))"
proof -
  have a: "fst (loadPage w u s) = None" if "page s"
    using that assms by (simp add: loadPage_def loadPage_try_def Let_def)
  have b: "WaitForTimeout SDK_WAIT \<in> set (trace (snd (test w p i u new_DeviceTester)))"
    using assms
    by (auto simp: page_created_def test_def test_try_def step_defs
        takeErrorScreenshot_def new_DeviceTester_def Let_def split: option.splits)
  have c: "error (snd (test w p i u new_DeviceTester)) = None
         \<and> Screenshot (screenshotPath_of (now_r w) (name p)) True
             \<in> set (trace (snd (test w p i u new_DeviceTester)))
         \<and> Title \<in> set (trace (snd (test w p i u new_DeviceTester)))"
    if "waitForTimeout_r w = None"
    using assms that
    by (auto simp: page_created_def test_def test_try_def step_defs
        new_DeviceTester_def Let_def split: option.splits)
  have d: "fst (test w p i u new_DeviceTester)" if "waitForTimeout_r w = None"
    using assms that by (simp add: test_classified navigation_ok_def)
  from a b c d show ?thesis
    by (simp add: status_test)
qed

theorem navigation_timeout_swallowed_witness:
  "page_created world_timeout desktop_chrome
   \<and> goto_r world_timeout = Inl (JsError ''TimeoutError'' ''page.goto: Timeout 60000ms exceeded.'')
   \<and> waitForTimeout_r world_timeout = None
   \<and> page (new_DeviceTester\<lparr>page := True\<rparr>)
   \<and> fst (loadPage world_timeout ''https://example.com'' (new_DeviceTester\<lparr>page := True\<rparr>))
       = None
   \<and> fst (test world_timeout desktop_chrome 0 ''https://example.com'' new_DeviceTester)
   \<and> status (snd (test world_timeout desktop_chrome 0 ''https://example.com'' new_DeviceTester))
       = StatusSuccess
   \<and> WaitForTimeout 20000
       \<in> set (trace (snd (test world_timeout desktop_chrome 0 ''https://example.com''
                              new_DeviceTester)))
   \<and> Title \<in> set (trace (snd (test world_timeout desktop_chrome 0 ''https://example.com''
                                    new_DeviceTester)))"
proof -
  have p: "page_created world_timeout desktop_chrome"
    by (simp add: page_created_def world_timeout_def calm_world_def desktop_chrome_def)
  have g: "goto_r world_timeout
            = Inl (JsError ''TimeoutError'' ''page.goto: Timeout 60000ms exceeded.'')"
    by (simp add: world_timeout_def calm_world_def)
  have n: "err_name (JsError ''TimeoutError'' ''page.goto: Timeout 60000ms exceeded.'')
            = ''TimeoutError''"
    by simp
  have t: "waitForTimeout_r world_timeout = None"
    by (simp add: world_timeout_def calm_world_def)
  from navigation_timeout_swallowed
         [OF p g n, of "new_DeviceTester\<lparr>page := True\<rparr>" "''https://example.com''" 0]
    p g t
  show ?thesis
    by (simp add: SDK_WAIT_def)
qed

text \<open>
  C4: a second invocation of \<open>cleanup\<close> changes nothing, whether it comes from the
  \<open>finally\<close> block after the signal handler or from the signal handler after the
  \<open>finally\<close> block; and in a whole session, whatever signals arrive at whatever
  stage, the page, the context and the browser are each closed at most once.
\<close>

theorem cleanup_at_most_once:
  "cleanup w' (cleanup w s) = cleanup w s
   \<and> trace (gracefulShutdown w' (cleanup w s)) = trace (cleanup w s)
   \<and> cleanup w' (gracefulShutdown w s) = gracefulShutdown w s
   \<and> count_list (trace (snd (test w p i u new_DeviceTester))) ClosePage \<le> 1
   \<and> count_list (trace (snd (test w p i u new_DeviceTester))) CloseContext \<le> 1
   \<and> count_list (trace (snd (test w p i u new_DeviceTester))) CloseBrowser \<le> 1"
proof -
  have a: "cleanup w' (cleanup w s) = cleanup w s"
    by (simp add: cleanup_def [of w'])
  have b: "trace (gracefulShutdown w' (cleanup w s)) = trace (cleanup w s)"
    by (simp add: gracefulShutdown_def cleanup_start_def)
  have c: "cleanup w' (gracefulShutdown w s) = gracefulShutdown w s"
    by (simp add: cleanup_def [of w'])
  from a b c closes_ok_test [of w p i u] show ?thesis
    by (simp add: closes_ok_def)
qed

text \<open>
  C7: the outcomes of the screenshot and of the title read have no influence on the
  returned flag or on the status of a session; and a session that comes through the
  settle wait without error classifies as success even when both fail.
\<close>

theorem capture_failures_do_not_classify:
  "fst (test (w\<lparr>screenshot_r := a, title_r := b\<rparr>) p i u new_DeviceTester)
     = fst (test w p i u new_DeviceTester)
   \<and> status (snd (test (w\<lparr>screenshot_r := a, title_r := b\<rparr>) p i u new_DeviceTester))
     = status (snd (test w p i u new_DeviceTester))
   \<and> (page_created w p \<and> navigation_ok w \<and> waitForTimeout_r w = None \<longrightarrow>
        fst (test (w\<lparr>screenshot_r := Some e1, title_r := Inl e2\<rparr>) p i u new_DeviceTester)
        \<and> status (snd (test (w\<lparr>screenshot_r := Some e1, title_r := Inl e2\<rparr>) p i u
                           new_DeviceTester)) = StatusSuccess)"
proof -
  have pc: "page_created (w\<lparr>screenshot_r := x, title_r := y\<rparr>) p = page_created w p" for x y
    by (simp add: page_created_def)
  have nv: "navigation_ok (w\<lparr>screenshot_r := x, title_r := y\<rparr>) = navigation_ok w" for x y
    by (simp add: navigation_ok_def)
  show ?thesis
    by (simp add: status_test test_classified pc nv)
qed

theorem capture_failures_do_not_classify_witness:
  "page_created calm_world desktop_chrome \<and> navigation_ok calm_world
   \<and> waitForTimeout_r calm_world = None
   \<and> screenshot_r world_capture_fails \<noteq> None
   \<and> fst (test world_capture_fails desktop_chrome 0 ''https://example.com'' new_DeviceTester)
   \<and> status (snd (test world_capture_fails desktop_chrome 0 ''https://example.com''
                     new_DeviceTester)) = StatusSuccess"
proof -
  have p: "page_created calm_world desktop_chrome"
    by (simp add: page_created_def calm_world_def desktop_chrome_def)
  have n: "navigation_ok calm_world"
    by (simp add: navigation_ok_def calm_world_def)
  have t: "waitForTimeout_r calm_world = None"
    by (simp add: calm_world_def)
  from capture_failures_do_not_classify
    [where w = calm_world and p = desktop_chrome and i = 0 and u = "''https://example.com''"
       and a = None and b = "Inr []"
       and ?e1.0 = "JsError ''Error'' ''page.screenshot: failed''"
       and ?e2.0 = "JsError ''Error'' ''page.title: failed''"]
    p n t
  show ?thesis
    by (simp add: world_capture_fails_def)
qed

text \<open>
  C10: the page exists at the end of a session exactly when every step up to its
  creation succeeded. When one of them failed, the session is an error and no
  screenshot of any kind is requested; when the page exists and the session is an
  error, the error screenshot is requested.
\<close>

theorem error_screenshot_needs_page:
  "page (snd (test w p i u new_DeviceTester)) = page_created w p
   \<and> (\<not> page_created w p \<longrightarrow>
        \<not> fst (test w p i u new_DeviceTester)
        \<and> filter is_shot (trace (snd (test w p i u new_DeviceTester))) = [])
   \<and> (page_created w p \<and> \<not> fst (test w p i u new_DeviceTester) \<longrightarrow>
        Screenshot (errorScreenshotPath_of (name p)) False
          \<in> set (trace (snd (test w p i u new_DeviceTester))))"
proof -
  have 1: "page (snd (test w p i u new_DeviceTester)) = page_created w p"
    by (simp add: page_test page_test_try)
  have 2: "\<not> fst (test w p i u new_DeviceTester)" if "\<not> page_created w p"
    using that by (simp add: test_classified)
  have 3: "filter is_shot (trace (snd (test w p i u new_DeviceTester))) = []"
    if "\<not> page_created w p"
    using that 1 shots_test [of w p i u] by (simp add: shots_need_page_def)
  from 1 2 3 error_shot_with_page [of w p i u new_DeviceTester] show ?thesis
    by blast
qed

theorem error_screenshot_needs_page_witness:
  "\<not> page_created world_launch_fails desktop_chrome
   \<and> \<not> fst (test world_launch_fails desktop_chrome 0 ''https://example.com'' new_DeviceTester)
   \<and> filter is_shot (trace (snd (test world_launch_fails desktop_chrome 0
                                     ''https://example.com'' new_DeviceTester))) = []
   \<and> page_created world_404_then_500 desktop_chrome
   \<and> Screenshot ''screenshots/error-screenshot-desktop-chrome.png'' False
       \<in> set (trace (snd (test world_404_then_500 desktop_chrome 0 ''https://example.com''
                              new_DeviceTester)))"
proof -
  have a: "\<not> page_created world_launch_fails desktop_chrome"
    by (simp add: page_created_def world_launch_fails_def calm_world_def)
  have b: "page_created world_404_then_500 desktop_chrome"
    by (simp add: page_created_def world_404_then_500_def world_404_def calm_world_def
        desktop_chrome_def)
  have c: "\<not> fst (test world_404_then_500 desktop_chrome 0 ''https://example.com''
                     new_DeviceTester)"
    by (simp add: test_classified navigation_ok_def world_404_then_500_def world_404_def
        calm_world_def)
  from error_screenshot_needs_page
         [of world_launch_fails desktop_chrome 0 "''https://example.com''"]
       error_screenshot_needs_page
         [of world_404_then_500 desktop_chrome 0 "''https://example.com''"]
       a b c
  show ?thesis
    by (simp add: error_path_desktop)
qed

section \<open>The rotation\<close>

lemma length_DEVICE_PROFILES: "length (DEVICE_PROFILES devices) = 5"
  by (simp add: DEVICE_PROFILES_def)

lemma distinct_DEVICE_PROFILES: "distinct (DEVICE_PROFILES devices)"
proof -
  have "distinct (map name (DEVICE_PROFILES devices))"
    by (simp add: DEVICE_PROFILES_def spread_device_def desktop_chrome_def)
  then show ?thesis
    by (simp add: distinct_map)
qed

lemma mod_window:
  assumes "0 < n"
  shows "mset (map (\<lambda>i. i mod n) [k..<k + n]) = mset [0..<n]"
proof (induction k)
  case 0
  have "map (\<lambda>i. i mod n) [0..<n] = map (\<lambda>i. i) [0..<n]"
    by (rule map_cong) simp_all
  then show ?case by simp
next
  case (Suc k)
  have l: "[k..<k + n] = k # [Suc k..<k + n]"
    using assms by (simp add: upt_conv_Cons)
  have r: "[Suc k..<Suc k + n] = [Suc k..<k + n] @ [k + n]"
    using assms by simp
  from Suc show ?case
    unfolding l r by simp
qed

lemma loop_body_step:
  "visited (loop_body env u L) = visited L @ [selectProfile (devices_r env) (iteration L)]"
  "iteration (loop_body env u L) = Suc (iteration L)"
  by (simp_all add: loop_body_def wait_next_def count_result_def Let_def split: prod.splits)

lemma runLoop_go:
  "\<not> shutdownFlag L \<Longrightarrow> exited L = None \<Longrightarrow> iteration L < MAX_ITERATIONS \<Longrightarrow>
   runLoop env u L = runLoop env u (loop_body env u L)"
  by (subst runLoop.simps) simp

lemma runLoop_stop:
  "shutdownFlag L \<or> exited L \<noteq> None \<or> \<not> iteration L < MAX_ITERATIONS \<Longrightarrow>
   runLoop env u L = L"
  by (subst runLoop.simps) auto

lemma runLoop_visited:
  "visited L = map (selectProfile (devices_r env)) [0..<iteration L] \<Longrightarrow>
   visited (runLoop env u L)
     = map (selectProfile (devices_r env)) [0..<iteration (runLoop env u L)]"
proof (induction env u L rule: runLoop.induct)
  case (1 env u L)
  show ?case
  proof (cases "\<not> shutdownFlag L \<and> exited L = None \<and> iteration L < MAX_ITERATIONS")
    case True
    have "visited (loop_body env u L)
            = map (selectProfile (devices_r env)) [0..<iteration (loop_body env u L)]"
      using "1.prems" by (simp add: loop_body_step)
    with True "1.IH" show ?thesis
      by (simp add: runLoop_go)
  next
    case False
    then have "runLoop env u L = L"
      by (intro runLoop_stop) auto
    with "1.prems" show ?thesis
      by simp
  qed
qed

text \<open>
  C5: the index of the profile of iteration \<open>i\<close> is \<open>i\<close> modulo the length of the
  catalog, which has five distinct entries; any five consecutive iterations select
  every profile of the catalog exactly once; and the profiles a run of the loop has
  visited are those selected for the iterations \<open>0, 1, 2, ...\<close> in this order.
\<close>

theorem rotation_round_robin:
  "profileIndex devices i = i mod length (DEVICE_PROFILES devices)
   \<and> profileIndex devices i < length (DEVICE_PROFILES devices)
   \<and> selectProfile devices i = DEVICE_PROFILES devices ! (i mod 5)
   \<and> mset (map (selectProfile devices) [k..<k + length (DEVICE_PROFILES devices)])
       = mset (DEVICE_PROFILES devices)
   \<and> count_list (map (selectProfile devices) [k..<k + length (DEVICE_PROFILES devices)]) q
       = (if q \<in> set (DEVICE_PROFILES devices) then 1 else 0)
   \<and> visited (runLoop env u loop_init)
       = map (selectProfile (devices_r env)) [0..<iteration (runLoop env u loop_init)]"
proof -
  let ?D = "DEVICE_PROFILES devices"
  have "map (selectProfile devices) [k..<k + 5]
          = map (\<lambda>j. ?D ! j) (map (\<lambda>i. i mod 5) [k..<k + 5])"
    by (simp add: selectProfile_def profileIndex_def length_DEVICE_PROFILES)
  then have "mset (map (selectProfile devices) [k..<k + 5])
          = image_mset (\<lambda>j. ?D ! j) (mset (map (\<lambda>i. i mod 5) [k..<k + 5]))"
    by (simp only: mset_map)
  also have "\<dots> = image_mset (\<lambda>j. ?D ! j) (mset [0..<5])"
    by (simp only: mod_window [of 5 k, OF zero_less_numeral])
  also have "\<dots> = mset (map (\<lambda>j. ?D ! j) [0..<length ?D])"
    by (simp only: mset_map length_DEVICE_PROFILES)
  also have "\<dots> = mset ?D"
    by (simp only: map_nth)
  finally have window: "mset (map (selectProfile devices) [k..<k + length ?D]) = mset ?D"
    by (simp add: length_DEVICE_PROFILES)
  have "count_list (map (selectProfile devices) [k..<k + length ?D]) q
          = count (mset (map (selectProfile devices) [k..<k + length ?D])) q"
    by (simp only: count_mset)
  also have "\<dots> = (if q \<in> set ?D then 1 else 0)"
    using distinct_DEVICE_PROFILES [of devices] by (simp only: window distinct_count_atmost_1)
  finally have once: "count_list (map (selectProfile devices) [k..<k + length ?D]) q
          = (if q \<in> set ?D then 1 else 0)" .
  have run: "visited (runLoop env u loop_init)
       = map (selectProfile (devices_r env)) [0..<iteration (runLoop env u loop_init)]"
    by (rule runLoop_visited) (simp add: loop_init_def)
  from window once run show ?thesis
    by (simp add: profileIndex_def selectProfile_def length_DEVICE_PROFILES)
qed

section \<open>The interruptible wait: proofs\<close>

lemma sleep_from_bounds:
  assumes "t \<le> s" and "s \<le> ms"
  shows "s \<le> fst (sleep_from ms (flag_from (Some s)) t)
    \<and> fst (sleep_from ms (flag_from (Some s)) t) \<le> s + POLL
    \<and> fst (sleep_from ms (flag_from (Some s)) t) \<le> ms"
  using assms
proof (induction ms "flag_from (Some s)" t rule: sleep_from.induct)
  case (1 ms t)
  show ?case
  proof (cases "ms \<le> t + POLL")
    case True
    with "1.prems" show ?thesis
      by (simp add: sleep_from.simps [of ms _ t])
  next
    case False
    show ?thesis
    proof (cases "flag_from (Some s) (t + POLL)")
      case True
      with False "1.prems" show ?thesis
        by (simp add: sleep_from.simps [of ms _ t] flag_from_def)
    next
      case flag: False
      then have "t + POLL \<le> s"
        by (simp add: flag_from_def)
      with False flag "1.hyps" "1.prems" show ?thesis
        by (simp add: sleep_from.simps [of ms _ t])
    qed
  qed
qed

lemma sleep_from_no_signal: "sleep_from ms (flag_from None) t = (ms, True)"
proof (induction ms "flag_from None" t rule: sleep_from.induct)
  case (1 ms t)
  then show ?case
    by (cases "ms \<le> t + POLL") (simp_all add: sleep_from.simps [of ms _ t] flag_from_def)
qed

text \<open>
  C8: the wait reads the flag at every tick of 1000 ms. When the flag becomes set at
  a time \<open>s\<close> within the interval, the wait returns no earlier than \<open>s\<close>, no later
  than \<open>s + 1000\<close> and no later than the full interval, with the flag set at that
  time; the loop then sees the flag and makes no further visit.
\<close>

theorem sleep_interruptible:
  assumes "s \<le> ms"
  shows "POLL = 1000
    \<and> s \<le> fst (sleep ms (flag_from (Some s)))
    \<and> fst (sleep ms (flag_from (Some s))) \<le> s + POLL
    \<and> fst (sleep ms (flag_from (Some s))) \<le> ms
    \<and> flag_from (Some s) (fst (sleep ms (flag_from (Some s))))
    \<and> (ms = INTERVAL \<and> sleep_signal env i = Some s \<and> \<not> shutdownFlag L
          \<and> iteration L < MAX_ITERATIONS \<longrightarrow>
        shutdownFlag (wait_next env i L)
        \<and> runLoop env u (wait_next env i L) = wait_next env i L)"
proof -
  have b: "s \<le> fst (sleep ms (flag_from (Some s)))
    \<and> fst (sleep ms (flag_from (Some s))) \<le> s + POLL
    \<and> fst (sleep ms (flag_from (Some s))) \<le> ms"
    unfolding sleep_def using sleep_from_bounds [of 0 s ms] assms by simp
  then have f: "flag_from (Some s) (fst (sleep ms (flag_from (Some s))))"
    by (simp add: flag_from_def)
  have "shutdownFlag (wait_next env i L)"
    if "ms = INTERVAL" "sleep_signal env i = Some s" "\<not> shutdownFlag L"
       "iteration L < MAX_ITERATIONS"
    using that f by (simp add: wait_next_def case_prod_beta)
  then have "shutdownFlag (wait_next env i L)
        \<and> runLoop env u (wait_next env i L) = wait_next env i L"
    if "ms = INTERVAL" "sleep_signal env i = Some s" "\<not> shutdownFlag L"
       "iteration L < MAX_ITERATIONS"
    using that by (simp add: runLoop_stop)
  with b f show ?thesis
    by (simp add: POLL_def)
qed

theorem sleep_interruptible_witness:
  "(2500::nat) \<le> INTERVAL
   \<and> fst (sleep INTERVAL (flag_from (Some 2500))) = 3000
   \<and> shutdownFlag (wait_next (calm_env\<lparr>sleep_signal := (\<lambda>i. Some 2500)\<rparr>) 0
                      (loop_init\<lparr>iteration := 1\<rparr>))"
proof -
  have a: "(2500::nat) \<le> INTERVAL"
    by (simp add: INTERVAL_def)
  have v: "fst (sleep INTERVAL (flag_from (Some 2500))) = 3000"
    by (simp add: sleep_def sleep_from.simps INTERVAL_def POLL_def flag_from_def)
  have c: "sleep_signal (calm_env\<lparr>sleep_signal := (\<lambda>i. Some 2500)\<rparr>) 0 = Some 2500"
    "\<not> shutdownFlag (loop_init\<lparr>iteration := 1\<rparr>)"
    "iteration (loop_init\<lparr>iteration := 1\<rparr>) < MAX_ITERATIONS"
    by (simp_all add: loop_init_def MAX_ITERATIONS_def)
  from sleep_interruptible [OF a, where env = "calm_env\<lparr>sleep_signal := (\<lambda>i. Some 2500)\<rparr>"
      and i = 0 and L = "loop_init\<lparr>iteration := 1\<rparr>"] a v c
  show ?thesis
    by simp
qed

section \<open>How the process ends\<close>

lemma loop_body_on_course:
  assumes "undisturbed env" and "on_course L" and "iteration L < MAX_ITERATIONS"
  shows "on_course (loop_body env u L)"
proof -
  have "signal_free (worlds env (iteration L))"
    using assms(1) by (simp add: undisturbed_def)
  then have "\<not> isShuttingDown (snd (test (worlds env (iteration L))
      (selectProfile (devices_r env) (iteration L)) (iteration L) u new_DeviceTester))"
    by (rule flag_test)
  moreover have "sleep_signal env (iteration L) = None" "\<not> fatal_in env (iteration L)"
    using assms(1) by (simp_all add: undisturbed_def)
  ultimately show ?thesis
    using assms(2,3)
    by (auto simp: loop_body_def wait_next_def count_result_def on_course_def Let_def sleep_def
        sleep_from_no_signal flag_from_def MAX_ITERATIONS_def)
qed

lemma runLoop_on_course:
  "undisturbed env \<Longrightarrow> on_course L \<Longrightarrow>
     on_course (runLoop env u L) \<and> iteration (runLoop env u L) = MAX_ITERATIONS"
proof (induction env u L rule: runLoop.induct)
  case (1 env u L)
  show ?case
  proof (cases "iteration L < MAX_ITERATIONS")
    case True
    from "1.prems" True have body: "on_course (loop_body env u L)"
      by (intro loop_body_on_course)
    from True "1.prems"
    have go: "\<not> shutdownFlag L" "exited L = None" "iteration L < MAX_ITERATIONS"
      by (simp_all add: on_course_def)
    then have "on_course (runLoop env u (loop_body env u L))
      \<and> iteration (runLoop env u (loop_body env u L)) = MAX_ITERATIONS"
      using "1.IH" "1.prems"(1) body by simp
    with go show ?thesis
      by (simp add: runLoop_go)
  next
    case False
    then have "runLoop env u L = L"
      by (intro runLoop_stop) auto
    with False "1.prems" show ?thesis
      by (simp add: on_course_def)
  qed
qed

text \<open>
  C9, at the failing input: a valid URL, no signal and no fatal error. All 1000
  iterations run and \<open>runTests\<close> returns, but each of the 999 waits in between ended
  by its timeout and left its interval timer armed, so the event loop never becomes
  empty and the process does not exit.
\<close>

theorem natural_completion_never_exits:
  "validateArguments sample_argv = Inr ''https://example.com''
   \<and> iteration (runLoop calm_env ''https://example.com''
                  (loop_init\<lparr> calls := [FsMkdir SCREENSHOT_DIR] \<rparr>)) = 1000
   \<and> armed (runLoop calm_env ''https://example.com''
              (loop_init\<lparr> calls := [FsMkdir SCREENSHOT_DIR] \<rparr>)) = 999
   \<and> fst (main sample_argv calm_env) = NeverExits"
proof -
  have v: "validateArguments sample_argv = Inr ''https://example.com''"
    by (simp add: validateArguments_def argv_at_def startsWith_def sample_argv_def)
  have u: "undisturbed calm_env"
    by (simp add: undisturbed_def calm_env_def signal_free_def calm_world_def)
  have o: "on_course (loop_init\<lparr> calls := [FsMkdir SCREENSHOT_DIR] \<rparr>)"
    by (simp add: on_course_def loop_init_def)
  from runLoop_on_course [OF u o, of "''https://example.com''"] v show ?thesis
    by (simp add: on_course_def main_def process_end_of_def MAX_ITERATIONS_def Let_def)
qed

end
